theory Spec2Isabelle
  imports Main "HOL-Library.Word"
begin

section \<open>The chat service: header filter, reconciler, framer and the two sinks\<close>

text \<open>
  A shallow embedding of the chat service module (header allow-list, \<^verbatim>\<open>createSSEChunk\<close>,
  \<^verbatim>\<open>wsMessageIterator\<close>, \<^verbatim>\<open>streamChatGenerator\<close>, \<^verbatim>\<open>nonStreamChat\<close>).

  A JavaScript string is a sequence of 16-bit code units; \<^verbatim>\<open>length\<close>, \<^verbatim>\<open>startsWith\<close>
  and \<^verbatim>\<open>slice\<close> count code units. It is modelled as a list of 16-bit words.
\<close>

type_synonym jstring = "16 word list"

definition js :: "string \<Rightarrow> jstring" where
  "js s = map (\<lambda>c. of_nat (of_char c)) s"

text \<open>\<^verbatim>\<open>s.startsWith(p)\<close> and \<^verbatim>\<open>s.slice(n)\<close> for \<open>0 \<le> n\<close>.\<close>

definition startsWith :: "jstring \<Rightarrow> jstring \<Rightarrow> bool" where
  "startsWith s p = (take (length p) s = p)"

definition slice :: "jstring \<Rightarrow> nat \<Rightarrow> jstring" where
  "slice s n = drop n s"

subsection \<open>Header allow-list\<close>

definition ALLOWED_HEADER_NAMES :: "jstring list" where
  "ALLOWED_HEADER_NAMES =
     [js ''authorization'', js ''content-type'', js ''accept'', js ''openai-organization'',
      js ''openai-project'', js ''idempotency-key'', js ''openai-beta'', js ''x-request-id'',
      js ''user-agent'', js ''accept-encoding'', js ''accept-language'', js ''content-length'']"

definition ALLOWED_HEADER_PREFIXES :: "jstring list" where
  "ALLOWED_HEADER_PREFIXES = [js ''openai-'', js ''x-openai-'']"

text \<open>
  \<^verbatim>\<open>toLowerCase\<close> on a header name. The names of a \<^verbatim>\<open>Headers\<close> object are HTTP tokens
  (ASCII), so only the mapping of \<^verbatim>\<open>A-Z\<close> matters; other code units are left as they are.
\<close>

definition toLowerCase :: "jstring \<Rightarrow> jstring" where
  "toLowerCase s = map (\<lambda>c. if 0x41 \<le> c \<and> c \<le> 0x5A then c + 0x20 else c) s"

text \<open>The \<^verbatim>\<open>for (const prefix of ALLOWED_HEADER_PREFIXES)\<close> loop of \<^verbatim>\<open>isAllowedHeader\<close>.\<close>

fun startsWithAny :: "jstring \<Rightarrow> jstring list \<Rightarrow> bool" where
  "startsWithAny nameLower [] = False"
| "startsWithAny nameLower (prefix # prefixes) =
     (if startsWith nameLower prefix then True else startsWithAny nameLower prefixes)"

definition isAllowedHeader :: "jstring \<Rightarrow> bool" where
  "isAllowedHeader headerName =
     (let nameLower = toLowerCase headerName in
      if List.member ALLOWED_HEADER_NAMES nameLower then True
      else startsWithAny nameLower ALLOWED_HEADER_PREFIXES)"

text \<open>
  A \<^verbatim>\<open>Record<string, string>\<close> is an object: an association list in insertion order, where
  assigning to an existing key replaces its value in place. Keys are compared exactly
  (case-sensitively), as JavaScript property names are.
\<close>

type_synonym jsobject = "(jstring \<times> jstring) list"

fun obj_set :: "jsobject \<Rightarrow> jstring \<Rightarrow> jstring \<Rightarrow> jsobject" where
  "obj_set [] k v = [(k, v)]"
| "obj_set ((k', v') # kvs) k v =
     (if k' = k then (k, v) # kvs else (k', v') # obj_set kvs k v)"

text \<open>
  \<^verbatim>\<open>filterAllowedHeaders\<close>: the argument is the sequence \<^verbatim>\<open>headers.entries()\<close> yields. The
  list of dropped names is only logged.
\<close>

fun filterAllowedHeaders_loop :: "jsobject \<Rightarrow> (jstring \<times> jstring) list \<Rightarrow> jsobject" where
  "filterAllowedHeaders_loop filtered [] = filtered"
| "filterAllowedHeaders_loop filtered ((name, val) # entries) =
     (if isAllowedHeader name
      then filterAllowedHeaders_loop (obj_set filtered name val) entries
      else filterAllowedHeaders_loop filtered entries)"

definition filterAllowedHeaders :: "(jstring \<times> jstring) list \<Rightarrow> jsobject" where
  "filterAllowedHeaders headers = filterAllowedHeaders_loop [] headers"

text \<open>
  The \<^verbatim>\<open>headers\<close> object literal of the trigger POST, written the same way in
  \<^verbatim>\<open>streamChatGenerator\<close> and \<^verbatim>\<open>nonStreamChat\<close>: the spread of the filtered client headers,
  then the four server properties in source order. \<^verbatim>\<open>ORIGIN\<close> comes from the configuration
  module and is a parameter.
\<close>

definition trigger_headers ::
  "jstring \<Rightarrow> jstring \<Rightarrow> jstring \<Rightarrow> (jstring \<times> jstring) list option \<Rightarrow> jsobject" where
  "trigger_headers ORIGIN jwtToken chatHistoryId clientHeaders =
     (let filteredClientHeaders =
            (case clientHeaders of Some h \<Rightarrow> filterAllowedHeaders h | None \<Rightarrow> []);
          h1 = obj_set filteredClientHeaders (js ''Authorization'') (js ''Bearer '' @ jwtToken);
          h2 = obj_set h1 (js ''Content-Type'') (js ''application/json'');
          h3 = obj_set h2 (js ''Origin'') ORIGIN;
          h4 = obj_set h3 (js ''Referer'') (ORIGIN @ js ''/'' @ chatHistoryId)
      in h4)"

text \<open>
  What a receiver that compares header names case-insensitively (as HTTP does) finds under
  a name: the values of all properties whose lower-cased key is that name.
\<close>

definition values_for :: "jsobject \<Rightarrow> jstring \<Rightarrow> jstring list" where
  "values_for obj name =
     map snd (filter (\<lambda>kv. toLowerCase (fst kv) = toLowerCase name) obj)"

subsection \<open>Frames of the event stream\<close>

text \<open>
  \<^verbatim>\<open>createSSEChunk\<close> builds the chunk object and serialises it as \<^verbatim>\<open>data: <json>\n\n\<close>. The
  model keeps the chunk before serialisation. The fields that are constants
  (\<^verbatim>\<open>object\<close>, \<^verbatim>\<open>index\<close>, \<^verbatim>\<open>logprobs\<close>) and the clock reading \<^verbatim>\<open>created\<close> are left out.
  \<open>delta_content = None\<close> is the empty \<^verbatim>\<open>delta: {}\<close>; \<open>finish_reason = None\<close> is \<^verbatim>\<open>null\<close>.
  \<open>DONE\<close> is the literal \<^verbatim>\<open>data: [DONE]\n\n\<close>.
\<close>

record SSEChunk =
  chunk_id :: jstring
  chunk_model :: jstring
  delta_content :: "jstring option"
  finish_reason :: "jstring option"

datatype frame = Data SSEChunk | DONE

definition createSSEChunk :: "jstring \<Rightarrow> jstring \<Rightarrow> jstring \<Rightarrow> jstring option \<Rightarrow> frame" where
  "createSSEChunk requestId model content finishReason =
     Data \<lparr>chunk_id = requestId, chunk_model = model,
           delta_content = (if content \<noteq> [] then Some content else None),
           finish_reason = finishReason\<rparr>"

subsection \<open>Socket events\<close>

text \<open>
  The code decodes each socket message with \<^verbatim>\<open>JSON.parse\<close> and reads it by property
  access. The model takes the message after decoding, with the fields typed as the wire
  protocol has them, and with one constructor for each way the decoding can fail:

  \<^item> \<open>Malformed\<close>: the outer \<^verbatim>\<open>JSON.parse(event.data)\<close> (or \<^verbatim>\<open>data.type\<close>) throws; the outer
    \<^verbatim>\<open>catch\<close> skips the event.
  \<^item> \<open>Update b\<close>: \<^verbatim>\<open>data.type === "update"\<close>, \<open>b\<close> the decoded \<^verbatim>\<open>data.buffer || "{}"\<close>.
  \<^item> \<open>State p\<close>: \<^verbatim>\<open>data.type === "state"\<close>, \<open>p\<close> the truth value of
    \<^verbatim>\<open>(data.state || {}).inProgress\<close>.
  \<^item> \<open>Other\<close>: any other \<^verbatim>\<open>data.type\<close>.

  For the nested buffer, \<open>Unparsable\<close> is a buffer on which \<^verbatim>\<open>JSON.parse(bufferStr)\<close> (or
  \<^verbatim>\<open>bufferData.type\<close>) throws; \<open>Payload t c\<close> has \<^verbatim>\<open>bufferData.type\<close> \<open>t\<close> (a missing type
  behaves as any string other than \<^verbatim>\<open>chat\<close> and \<^verbatim>\<open>thinking\<close>) and
  \<^verbatim>\<open>bufferData.chat?.content || ""\<close> the string \<open>c\<close>. The protocol gives \<^verbatim>\<open>content\<close> as a
  string; a content of another JSON type is outside the model.
\<close>

datatype buffer_payload = Unparsable | Payload jstring jstring

datatype message = Malformed | Update buffer_payload | State bool | Other

datatype ws_event = Message message | Close | Error

text \<open>
  \<^verbatim>\<open>wsMessageIterator\<close>: the argument is the sequence of socket callbacks in arrival order
  (what the handlers push on the queue); the result is the sequence the iterator yields.
  It yields every message, and stops after the first close or error.
\<close>

fun wsMessageIterator :: "ws_event list \<Rightarrow> ws_event list" where
  "wsMessageIterator [] = []"
| "wsMessageIterator (Close # queue) = [Close]"
| "wsMessageIterator (Error # queue) = [Error]"
| "wsMessageIterator (Message m # queue) = Message m # wsMessageIterator queue"

subsection \<open>Session state\<close>

datatype mode = Snapshot | Delta

record session =
  receivedUpdate :: bool
  lastBufferType :: "jstring option"
  inThinkingBlock :: bool
  modeByType :: "jstring \<rightharpoonup> mode"
  prevContentByType :: "jstring \<rightharpoonup> jstring"

definition init_session :: session where
  "init_session =
     \<lparr>receivedUpdate = False, lastBufferType = None, inThinkingBlock = False,
      modeByType = Map.empty, prevContentByType = Map.empty\<rparr>"

subsection \<open>The event-stream sink\<close>

text \<open>
  The body of \<^verbatim>\<open>if (content)\<close> is two blocks: the framer (the type-switch check, which
  yields marker frames) and the reconciler (mode detection and the delta), from
  \<^verbatim>\<open>const prev = ...\<close> to the end of the \<^verbatim>\<open>if (mode === "snapshot")\<close> chain. Each block is
  a definition, and the reconciler is modelled in two steps.

  \<open>detect_mode\<close> is the \<^verbatim>\<open>if (!mode && prev)\<close> block of \<^verbatim>\<open>streamChatGenerator\<close>: the mode
  after it and the state with \<^verbatim>\<open>modeByType\<close> updated.
\<close>

definition detect_mode :: "session \<Rightarrow> jstring \<Rightarrow> jstring \<Rightarrow> mode option \<times> session" where
  "detect_mode st bufferType content =
     (let prev = (case prevContentByType st bufferType of Some p \<Rightarrow> p | None \<Rightarrow> []);
          mode = modeByType st bufferType
      in if mode = None \<and> prev \<noteq> [] then
           if startsWith content prev
           then (Some Snapshot, st\<lparr>modeByType := (modeByType st)(bufferType \<mapsto> Snapshot)\<rparr>)
           else (Some Delta, st\<lparr>modeByType := (modeByType st)(bufferType \<mapsto> Delta)\<rparr>)
         else (mode, st))"

text \<open>
  \<open>reconcile\<close> is the whole reconciler block of \<^verbatim>\<open>streamChatGenerator\<close>: the value of
  \<^verbatim>\<open>delta\<close> and the state after it.
\<close>

definition reconcile :: "session \<Rightarrow> jstring \<Rightarrow> jstring \<Rightarrow> jstring \<times> session" where
  "reconcile st bufferType content =
     (let prev = (case prevContentByType st bufferType of Some p \<Rightarrow> p | None \<Rightarrow> []);
          (mode, st') = detect_mode st bufferType content
      in case mode of
           Some Snapshot \<Rightarrow>
             (slice content (length prev),
              st'\<lparr>prevContentByType := (prevContentByType st')(bufferType \<mapsto> content)\<rparr>)
         | Some Delta \<Rightarrow>
             (content,
              st'\<lparr>prevContentByType := (prevContentByType st')(bufferType \<mapsto> prev @ content)\<rparr>)
         | None \<Rightarrow>
             (content,
              st'\<lparr>prevContentByType := (prevContentByType st')(bufferType \<mapsto> content)\<rparr>))"

text \<open>
  The framer block of \<^verbatim>\<open>streamChatGenerator\<close>, \<^verbatim>\<open>if (bufferType !== lastBufferType)\<close>: the
  state after it and the marker frames yielded.
\<close>

definition stream_framer ::
  "jstring \<Rightarrow> jstring \<Rightarrow> session \<Rightarrow> jstring \<Rightarrow> session \<times> frame list" where
  "stream_framer requestId model st bufferType =
     (if Some bufferType \<noteq> lastBufferType st then
        let (sa, oa) =
              (if inThinkingBlock st
               then (st\<lparr>inThinkingBlock := False\<rparr>,
                     [createSSEChunk requestId model (js ''</think>'') None])
               else (st, []));
            (sb, ob) =
              (if bufferType = js ''thinking''
               then (sa\<lparr>inThinkingBlock := True\<rparr>,
                     [createSSEChunk requestId model (js ''<think>'') None])
               else (sa, []))
        in (sb\<lparr>lastBufferType := Some bufferType\<rparr>, oa @ ob)
      else (st, []))"

text \<open>
  The body of \<^verbatim>\<open>if (content)\<close> in \<^verbatim>\<open>streamChatGenerator\<close>, for a buffer of type
  \<open>bufferType\<close> with non-empty \<open>content\<close>: the new state and the frames yielded, in order.
\<close>

definition stream_content ::
  "jstring \<Rightarrow> jstring \<Rightarrow> session \<Rightarrow> jstring \<Rightarrow> jstring \<Rightarrow> session \<times> frame list" where
  "stream_content requestId model st bufferType content =
     (let (st1, out1) = stream_framer requestId model st bufferType;
          (delta, st3) = reconcile st1 bufferType content
      in (st3, out1 @ (if delta \<noteq> [] then [createSSEChunk requestId model delta None] else [])))"

text \<open>
  One iteration of the \<^verbatim>\<open>for await\<close> loop on a message event: the new state, the frames
  yielded, and whether the loop breaks.
\<close>

fun stream_message ::
  "jstring \<Rightarrow> jstring \<Rightarrow> session \<Rightarrow> message \<Rightarrow> session \<times> frame list \<times> bool" where
  "stream_message requestId model st Malformed = (st, [], False)"
| "stream_message requestId model st (Update Unparsable) =
     (st\<lparr>receivedUpdate := True\<rparr>, [], False)"
| "stream_message requestId model st (Update (Payload bufferType content)) =
     (let st' = st\<lparr>receivedUpdate := True\<rparr> in
      if bufferType = js ''chat'' \<or> bufferType = js ''thinking'' then
        if content \<noteq> [] then
          (let (st'', out) = stream_content requestId model st' bufferType content
           in (st'', out, False))
        else (st', [], False)
      else (st', [], False))"
| "stream_message requestId model st (State inProgress) =
     (if \<not> inProgress \<and> receivedUpdate st then
        if inThinkingBlock st
        then (st\<lparr>inThinkingBlock := False\<rparr>,
              [createSSEChunk requestId model (js ''</think>'') None], True)
        else (st, [], True)
      else (st, [], False))"
| "stream_message requestId model st Other = (st, [], False)"

text \<open>
  The loop over the yielded events. An empty list is a socket that has delivered nothing
  more yet: the generator is suspended in \<^verbatim>\<open>await\<close> and the loop has not ended
  (\<open>Waiting\<close>). The result is the frames yielded, the state reached, and the status.
\<close>

datatype status = Ended | Waiting

fun stream_loop ::
  "jstring \<Rightarrow> jstring \<Rightarrow> session \<Rightarrow> ws_event list \<Rightarrow> frame list \<times> session \<times> status" where
  "stream_loop requestId model st [] = ([], st, Waiting)"
| "stream_loop requestId model st (Close # events) = ([], st, Ended)"
| "stream_loop requestId model st (Error # events) = ([], st, Ended)"
| "stream_loop requestId model st (Message m # events) =
     (let (st', out, brk) = stream_message requestId model st m in
      if brk then (out, st', Ended)
      else (let (out', st'', r) = stream_loop requestId model st' events
            in (out @ out', st'', r)))"

text \<open>
  Opening the socket either succeeds or fails (the constructor throws, or \<^verbatim>\<open>onerror\<close> fires
  before \<^verbatim>\<open>onopen\<close>); the failure carries the text \<^verbatim>\<open>${e}\<close> of its cause.
\<close>

datatype ws_open = Opened | OpenFailed jstring

text \<open>The prefix of the error frame's content: U+9519 U+8BEF, a colon and a space.\<close>

definition stream_error_prefix :: jstring where
  "stream_error_prefix = [0x9519, 0x8BEF, 0x3A, 0x20]"

text \<open>
  \<^verbatim>\<open>streamChatGenerator\<close>: the frames the generator yields for a socket that opens (or not)
  and then delivers \<open>queue\<close>, and whether it has returned. The trigger POST is started
  and not awaited, and its failures are caught inside \<^verbatim>\<open>triggerChat\<close>: it has no effect on
  the frames. The only statements outside the loop's own \<^verbatim>\<open>try\<close> that can throw are those
  that open the socket.
\<close>

definition streamChatGenerator ::
  "jstring \<Rightarrow> jstring \<Rightarrow> ws_open \<Rightarrow> ws_event list \<Rightarrow> frame list \<times> status" where
  "streamChatGenerator requestId model sock queue =
     (let priming = createSSEChunk requestId model [] None in
      case sock of
        OpenFailed e \<Rightarrow>
          ([priming,
            createSSEChunk requestId model (stream_error_prefix @ e) (Some (js ''stop'')),
            DONE], Ended)
      | Opened \<Rightarrow>
          (case stream_loop requestId model init_session (wsMessageIterator queue) of
             (out, st, Ended) \<Rightarrow>
               (priming # out @ [createSSEChunk requestId model [] (Some (js ''stop'')), DONE],
                Ended)
           | (out, st, Waiting) \<Rightarrow> (priming # out, Waiting)))"

subsection \<open>The aggregate sink\<close>

text \<open>
  The framer block of \<^verbatim>\<open>nonStreamChat\<close>: the markers are appended to \<^verbatim>\<open>fullContent\<close>.
\<close>

definition nonStream_framer :: "session \<Rightarrow> jstring \<Rightarrow> jstring \<Rightarrow> session \<times> jstring" where
  "nonStream_framer st fullContent bufferType =
     (if Some bufferType \<noteq> lastBufferType st then
        let (sa, fa) =
              (if inThinkingBlock st
               then (st\<lparr>inThinkingBlock := False\<rparr>, fullContent @ js ''</think>'')
               else (st, fullContent));
            (sb, fb) =
              (if bufferType = js ''thinking''
               then (sa\<lparr>inThinkingBlock := True\<rparr>, fa @ js ''<think>'')
               else (sa, fa))
        in (sb\<lparr>lastBufferType := Some bufferType\<rparr>, fb)
      else (st, fullContent))"

text \<open>
  The reconciler block of \<^verbatim>\<open>nonStreamChat\<close>, written out again from its own source lines.
\<close>

definition nonStream_detect_mode ::
  "session \<Rightarrow> jstring \<Rightarrow> jstring \<Rightarrow> mode option \<times> session" where
  "nonStream_detect_mode st bufferType content =
     (let prev = (case prevContentByType st bufferType of Some p \<Rightarrow> p | None \<Rightarrow> []);
          mode = modeByType st bufferType
      in if mode = None \<and> prev \<noteq> [] then
           if startsWith content prev
           then (Some Snapshot, st\<lparr>modeByType := (modeByType st)(bufferType \<mapsto> Snapshot)\<rparr>)
           else (Some Delta, st\<lparr>modeByType := (modeByType st)(bufferType \<mapsto> Delta)\<rparr>)
         else (mode, st))"

definition nonStream_reconcile :: "session \<Rightarrow> jstring \<Rightarrow> jstring \<Rightarrow> jstring \<times> session" where
  "nonStream_reconcile st bufferType content =
     (let prev = (case prevContentByType st bufferType of Some p \<Rightarrow> p | None \<Rightarrow> []);
          (mode, st') = nonStream_detect_mode st bufferType content
      in case mode of
           Some Snapshot \<Rightarrow>
             (slice content (length prev),
              st'\<lparr>prevContentByType := (prevContentByType st')(bufferType \<mapsto> content)\<rparr>)
         | Some Delta \<Rightarrow>
             (content,
              st'\<lparr>prevContentByType := (prevContentByType st')(bufferType \<mapsto> prev @ content)\<rparr>)
         | None \<Rightarrow>
             (content,
              st'\<lparr>prevContentByType := (prevContentByType st')(bufferType \<mapsto> content)\<rparr>))"

text \<open>The body of \<^verbatim>\<open>if (content)\<close> in \<^verbatim>\<open>nonStreamChat\<close>, on the state and \<^verbatim>\<open>fullContent\<close>.\<close>

definition nonStream_content ::
  "session \<Rightarrow> jstring \<Rightarrow> jstring \<Rightarrow> jstring \<Rightarrow> session \<times> jstring" where
  "nonStream_content st fullContent bufferType content =
     (let (st1, full1) = nonStream_framer st fullContent bufferType;
          (delta, st3) = nonStream_reconcile st1 bufferType content
      in (st3, if delta \<noteq> [] then full1 @ delta else full1))"

fun nonStream_message ::
  "session \<Rightarrow> jstring \<Rightarrow> message \<Rightarrow> session \<times> jstring \<times> bool" where
  "nonStream_message st fullContent Malformed = (st, fullContent, False)"
| "nonStream_message st fullContent (Update Unparsable) =
     (st\<lparr>receivedUpdate := True\<rparr>, fullContent, False)"
| "nonStream_message st fullContent (Update (Payload bufferType content)) =
     (let st' = st\<lparr>receivedUpdate := True\<rparr> in
      if bufferType = js ''chat'' \<or> bufferType = js ''thinking'' then
        if content \<noteq> [] then
          (let (st'', full) = nonStream_content st' fullContent bufferType content
           in (st'', full, False))
        else (st', fullContent, False)
      else (st', fullContent, False))"
| "nonStream_message st fullContent (State inProgress) =
     (if \<not> inProgress then
        if receivedUpdate st then
          if inThinkingBlock st
          then (st\<lparr>inThinkingBlock := False\<rparr>, fullContent @ js ''</think>'', True)
          else (st, fullContent, True)
        else (st, fullContent, False)
      else (st, fullContent, False))"
| "nonStream_message st fullContent Other = (st, fullContent, False)"

fun nonStream_loop ::
  "session \<Rightarrow> jstring \<Rightarrow> ws_event list \<Rightarrow> jstring \<times> session \<times> status" where
  "nonStream_loop st fullContent [] = (fullContent, st, Waiting)"
| "nonStream_loop st fullContent (Close # events) = (fullContent, st, Ended)"
| "nonStream_loop st fullContent (Error # events) = (fullContent, st, Ended)"
| "nonStream_loop st fullContent (Message m # events) =
     (let (st', full, brk) = nonStream_message st fullContent m in
      if brk then (full, st', Ended)
      else nonStream_loop st' full events)"

text \<open>
  The trigger POST is awaited here: \<^verbatim>\<open>fetch\<close> either returns a response (whatever its
  status, which is only logged) or throws, with the text \<^verbatim>\<open>${e}\<close> of the cause.

  The handlers \<^verbatim>\<open>onmessage\<close>, \<^verbatim>\<open>onclose\<close> and \<^verbatim>\<open>onerror\<close> are assigned inside
  \<^verbatim>\<open>wsMessageIterator\<close>, which \<^verbatim>\<open>nonStreamChat\<close> enters only after \<^verbatim>\<open>await fetch\<close>. The socket
  events that fire while the POST is awaited (\<open>early\<close>) reach no handler and are dropped;
  the loop reads the events that fire afterwards (\<open>queue\<close>). The backend's whole sequence
  is \<open>early @ queue\<close>. \<^verbatim>\<open>streamChatGenerator\<close> starts the POST without awaiting it and enters
  the iterator at once, so it reads the whole sequence.
\<close>

datatype fetch_result = Response | FetchThrows jstring

text \<open>
  The promise \<^verbatim>\<open>nonStreamChat\<close> returns: still pending, resolved with a string, or
  rejected with an \<^verbatim>\<open>Error\<close> of the given message.
\<close>

datatype promise = Pending | Resolved jstring | Rejected jstring

text \<open>
  The prefix of the rejection message: U+5904 U+7406 U+8BF7 U+6C42 U+5931 U+8D25, a colon
  and a space.
\<close>

definition nonStream_error_prefix :: jstring where
  "nonStream_error_prefix = [0x5904, 0x7406, 0x8BF7, 0x6C42, 0x5931, 0x8D25, 0x3A, 0x20]"

definition nonStreamChat ::
  "ws_open \<Rightarrow> fetch_result \<Rightarrow> ws_event list \<Rightarrow> ws_event list \<Rightarrow> promise" where
  "nonStreamChat sock resp early queue =
     (case sock of
        OpenFailed e \<Rightarrow> Rejected (nonStream_error_prefix @ e)
      | Opened \<Rightarrow>
          (case resp of
             FetchThrows e \<Rightarrow> Rejected (nonStream_error_prefix @ e)
           | Response \<Rightarrow>
               (case nonStream_loop init_session [] (wsMessageIterator queue) of
                  (fullContent, st, Ended) \<Rightarrow> Resolved fullContent
                | (fullContent, st, Waiting) \<Rightarrow> Pending)))"

subsection \<open>Notions used to state the properties\<close>

text \<open>
  The control frames of the event stream are the sentinel, the chunks with an empty
  \<^verbatim>\<open>delta\<close> (the priming frame) and the chunks with a \<^verbatim>\<open>finish_reason\<close>. The other chunks
  are the delta and marker frames; \<open>frame_texts\<close> concatenates their contents.
\<close>

definition is_control :: "frame \<Rightarrow> bool" where
  "is_control f = (case f of DONE \<Rightarrow> True | Data c \<Rightarrow> delta_content c = None \<or> finish_reason c \<noteq> None)"

definition frame_text :: "frame \<Rightarrow> jstring" where
  "frame_text f = (case f of DONE \<Rightarrow> [] | Data c \<Rightarrow> (case delta_content c of Some t \<Rightarrow> t | None \<Rightarrow> []))"

definition frame_texts :: "frame list \<Rightarrow> jstring" where
  "frame_texts fs = concat (map frame_text (filter (\<lambda>f. \<not> is_control f) fs))"

text \<open>An update event carrying a buffer of type \<^verbatim>\<open>chat\<close> with the given content.\<close>

definition chat_update :: "jstring \<Rightarrow> ws_event" where
  "chat_update c = Message (Update (Payload (js ''chat'') c))"

text \<open>
  A sequence of contents is growing when each content has the one before it as a proper
  prefix.
\<close>

fun growing :: "jstring list \<Rightarrow> bool" where
  "growing [] = True"
| "growing [c] = True"
| "growing (c # d # cs) = (startsWith d c \<and> d \<noteq> c \<and> growing (d # cs))"

text \<open>\<^verbatim>\<open>prevContentByType[t] ?? ""\<close>: the previous content recorded for a segment type.\<close>

definition prev_of :: "session \<Rightarrow> jstring \<Rightarrow> jstring" where
  "prev_of st t = (case prevContentByType st t of Some p \<Rightarrow> p | None \<Rightarrow> [])"

text \<open>Message events, and among them the update events (\<^verbatim>\<open>data.type === "update"\<close>).\<close>

fun is_message :: "ws_event \<Rightarrow> bool" where
  "is_message (Message m) = True"
| "is_message Close = False"
| "is_message Error = False"

fun is_update :: "ws_event \<Rightarrow> bool" where
  "is_update (Message (Update b)) = True"
| "is_update e = False"

text \<open>
  The update events that carry nothing to emit: the nested buffer does not parse, its type
  is neither \<^verbatim>\<open>chat\<close> nor \<^verbatim>\<open>thinking\<close>, or its content is empty.
\<close>

fun ignored_payload :: "buffer_payload \<Rightarrow> bool" where
  "ignored_payload Unparsable = True"
| "ignored_payload (Payload t c) = (\<not> (t = js ''chat'' \<or> t = js ''thinking'') \<or> c = [])"

section \<open>Basic facts\<close>

lemmas eval_defs =
  streamChatGenerator_def nonStreamChat_def stream_content_def nonStream_content_def
  stream_framer_def nonStream_framer_def reconcile_def detect_mode_def
  nonStream_reconcile_def nonStream_detect_mode_def init_session_def
  createSSEChunk_def chat_update_def startsWith_def slice_def js_def Let_def

lemma chat_neq_thinking: "js ''chat'' \<noteq> js ''thinking''" by (simp add: js_def)

lemma frame_texts_Nil: "frame_texts [] = []" by (simp add: frame_texts_def)

lemma frame_texts_append: "frame_texts (xs @ ys) = frame_texts xs @ frame_texts ys"
  by (simp add: frame_texts_def)

lemma frame_texts_data:
  "frame_texts (createSSEChunk r m c None # xs) = c @ frame_texts xs"
  by (simp add: frame_texts_def createSSEChunk_def is_control_def frame_text_def)

lemma frame_texts_finish:
  "frame_texts (createSSEChunk r m c (Some f) # xs) = frame_texts xs"
  by (simp add: frame_texts_def createSSEChunk_def is_control_def frame_text_def)

lemma frame_texts_DONE: "frame_texts (DONE # xs) = frame_texts xs"
  by (simp add: frame_texts_def is_control_def)

lemmas frame_texts_simps =
  frame_texts_Nil frame_texts_append frame_texts_data frame_texts_finish frame_texts_DONE

lemma startsWith_length: "startsWith c p \<Longrightarrow> length p \<le> length c"
proof -
  assume "startsWith c p"
  then have "length (take (length p) c) = length p" by (simp add: startsWith_def)
  then show ?thesis by simp
qed

lemma growing_nonempty: "startsWith d c \<Longrightarrow> d \<noteq> c \<Longrightarrow> slice d (length c) \<noteq> [] \<and> d \<noteq> [] \<and> c @ slice d (length c) = d"
  unfolding startsWith_def slice_def
  by (metis append_take_drop_id append_Nil2 drop_eq_Nil2 take_all_iff take_eq_Nil2)

subsection \<open>Two sessions, run\<close>

text \<open>
  Two growing snapshots and a terminal state; and a thinking segment, an answer and a
  terminal state.
\<close>

lemma scenario_snapshots:
  "streamChatGenerator (js ''r'') (js ''m'') Opened
     [chat_update (js ''Hello''), chat_update (js ''Hello world''), Message (State False)] =
   ([createSSEChunk (js ''r'') (js ''m'') [] None,
     createSSEChunk (js ''r'') (js ''m'') (js ''Hello'') None,
     createSSEChunk (js ''r'') (js ''m'') (js '' world'') None,
     createSSEChunk (js ''r'') (js ''m'') [] (Some (js ''stop'')),
     DONE], Ended)"
  by (simp add: eval_defs)

lemma scenario_thinking:
  "streamChatGenerator (js ''r'') (js ''m'') Opened
     [Message (Update (Payload (js ''thinking'') (js ''pondering''))),
      chat_update (js ''Answer''), Message (State False)] =
   ([createSSEChunk (js ''r'') (js ''m'') [] None,
     createSSEChunk (js ''r'') (js ''m'') (js ''<think>'') None,
     createSSEChunk (js ''r'') (js ''m'') (js ''pondering'') None,
     createSSEChunk (js ''r'') (js ''m'') (js ''</think>'') None,
     createSSEChunk (js ''r'') (js ''m'') (js ''Answer'') None,
     createSSEChunk (js ''r'') (js ''m'') [] (Some (js ''stop'')),
     DONE], Ended)"
  by (simp add: eval_defs)

subsection \<open>The reconciler, case by case\<close>

lemma reconcile_first:
  assumes "modeByType st t = None" "prev_of st t = []"
  shows "reconcile st t c = (c, st\<lparr>prevContentByType := (prevContentByType st)(t \<mapsto> c)\<rparr>)"
  using assms by (simp add: reconcile_def detect_mode_def prev_of_def)

lemma reconcile_detect_snapshot:
  assumes "modeByType st t = None" "prev_of st t \<noteq> []" "startsWith c (prev_of st t)"
  shows "reconcile st t c =
     (slice c (length (prev_of st t)),
      st\<lparr>modeByType := (modeByType st)(t \<mapsto> Snapshot),
         prevContentByType := (prevContentByType st)(t \<mapsto> c)\<rparr>)"
  using assms by (simp add: reconcile_def detect_mode_def prev_of_def)

lemma reconcile_detect_delta:
  assumes "modeByType st t = None" "prev_of st t \<noteq> []" "\<not> startsWith c (prev_of st t)"
  shows "reconcile st t c =
     (c, st\<lparr>modeByType := (modeByType st)(t \<mapsto> Delta),
            prevContentByType := (prevContentByType st)(t \<mapsto> prev_of st t @ c)\<rparr>)"
  using assms by (simp add: reconcile_def detect_mode_def prev_of_def)

lemma reconcile_snapshot:
  assumes "modeByType st t = Some Snapshot"
  shows "reconcile st t c =
     (slice c (length (prev_of st t)),
      st\<lparr>prevContentByType := (prevContentByType st)(t \<mapsto> c)\<rparr>)"
  using assms by (simp add: reconcile_def detect_mode_def prev_of_def)

lemma reconcile_delta:
  assumes "modeByType st t = Some Delta"
  shows "reconcile st t c =
     (c, st\<lparr>prevContentByType := (prevContentByType st)(t \<mapsto> prev_of st t @ c)\<rparr>)"
  using assms by (simp add: reconcile_def detect_mode_def prev_of_def)

lemma reconcile_keeps:
  "receivedUpdate (snd (reconcile st t c)) = receivedUpdate st"
  "inThinkingBlock (snd (reconcile st t c)) = inThinkingBlock st"
  "lastBufferType (snd (reconcile st t c)) = lastBufferType st"
  by (simp_all add: reconcile_def detect_mode_def split: option.splits mode.splits)

lemma reconcile_mode_sticky:
  "modeByType st t = Some md \<Longrightarrow> modeByType (snd (reconcile st t' c)) t = Some md"
  by (cases "modeByType st t'"; cases "t' = t")
     (auto simp: reconcile_def detect_mode_def split: option.splits mode.splits)

lemma reconcile_prev_other:
  "t' \<noteq> t \<Longrightarrow> prevContentByType (snd (reconcile st t' c)) t = prevContentByType st t"
  by (cases "modeByType st t'")
     (auto simp: reconcile_def detect_mode_def split: option.splits mode.splits)

subsection \<open>The event-stream sink, step by step\<close>

lemma stream_framer_same:
  "lastBufferType st = Some t \<Longrightarrow> stream_framer r m st t = (st, [])"
  by (simp add: stream_framer_def)

lemma stream_framer_keeps:
  "receivedUpdate (fst (stream_framer r m st t)) = receivedUpdate st"
  "modeByType (fst (stream_framer r m st t)) = modeByType st"
  "prevContentByType (fst (stream_framer r m st t)) = prevContentByType st"
  by (simp_all add: stream_framer_def)

lemma stream_content_state:
  "fst (stream_content r m st t c) = snd (reconcile (fst (stream_framer r m st t)) t c)"
  by (simp add: stream_content_def split: prod.splits)

lemma stream_message_same_type:
  assumes "lastBufferType st = Some t" "t = js ''chat'' \<or> t = js ''thinking''" "c \<noteq> []"
  shows "stream_message r m st (Update (Payload t c)) =
     (snd (reconcile (st\<lparr>receivedUpdate := True\<rparr>) t c),
      (if fst (reconcile (st\<lparr>receivedUpdate := True\<rparr>) t c) \<noteq> []
       then [createSSEChunk r m (fst (reconcile (st\<lparr>receivedUpdate := True\<rparr>) t c)) None] else []),
      False)"
  using assms by (auto simp add: stream_content_def stream_framer_same split: prod.splits)

lemma stream_message_first_chat:
  assumes "c \<noteq> []"
  shows "stream_message r m init_session (Update (Payload (js ''chat'') c)) =
     (init_session\<lparr>receivedUpdate := True, lastBufferType := Some (js ''chat''),
                   prevContentByType := [js ''chat'' \<mapsto> c]\<rparr>,
      [createSSEChunk r m c None], False)"
  using assms
  by (simp add: stream_content_def stream_framer_def init_session_def chat_neq_thinking
        reconcile_def detect_mode_def)

lemma stream_message_received:
  "receivedUpdate (fst (stream_message r m st msg)) =
     (receivedUpdate st \<or> is_update (Message msg))"
proof (cases msg)
  case (Update b)
  then show ?thesis
    by (cases b) (simp_all add: Let_def split_beta stream_content_state reconcile_keeps stream_framer_keeps)
qed simp_all

lemma stream_message_mode_sticky:
  assumes "modeByType st t = Some md"
  shows "modeByType (fst (stream_message r m st msg)) t = Some md"
proof (cases msg)
  case (Update b)
  then show ?thesis using assms
    by (cases b)
       (simp_all add: Let_def split_beta stream_content_state reconcile_mode_sticky stream_framer_keeps)
qed (use assms in simp_all)

lemma stream_loop_iterator:
  "stream_loop r m st (wsMessageIterator q) = stream_loop r m st q"
  by (induction q arbitrary: st rule: wsMessageIterator.induct) (simp_all split: prod.splits)

lemma stream_loop_append:
  "snd (snd (stream_loop r m st es)) = Waiting \<Longrightarrow>
   stream_loop r m st (es @ es') =
     (fst (stream_loop r m st es) @ fst (stream_loop r m (fst (snd (stream_loop r m st es))) es'),
      snd (stream_loop r m (fst (snd (stream_loop r m st es))) es'))"
proof (induction es arbitrary: st)
  case Nil
  then show ?case by simp
next
  case (Cons e es)
  show ?case
  proof (cases e)
    case (Message msg)
    obtain st1 out1 brk where M: "stream_message r m st msg = (st1, out1, brk)"
      by (cases "stream_message r m st msg")
    show ?thesis
    proof (cases brk)
      case True
      then show ?thesis using Cons.prems Message M by simp
    next
      case False
      then have "snd (snd (stream_loop r m st1 es)) = Waiting"
        using Cons.prems Message M by (simp split: prod.splits)
      from Cons.IH[OF this] show ?thesis using Message M False
        by (simp split: prod.splits)
    qed
  qed (use Cons.prems in simp_all)
qed

lemma stream_loop_received:
  "snd (snd (stream_loop r m st es)) = Waiting \<Longrightarrow>
   receivedUpdate (fst (snd (stream_loop r m st es))) = (receivedUpdate st \<or> (\<exists>e \<in> set es. is_update e))"
proof (induction es arbitrary: st)
  case Nil
  then show ?case by simp
next
  case (Cons e es)
  show ?case
  proof (cases e)
    case (Message msg)
    obtain st1 out1 brk where M: "stream_message r m st msg = (st1, out1, brk)"
      by (cases "stream_message r m st msg")
    have R: "receivedUpdate st1 = (receivedUpdate st \<or> is_update (Message msg))"
      using stream_message_received[of r m st msg] M by simp
    show ?thesis
    proof (cases brk)
      case True
      then show ?thesis using Cons.prems Message M by simp
    next
      case False
      then have "snd (snd (stream_loop r m st1 es)) = Waiting"
        using Cons.prems Message M by (simp split: prod.splits)
      from Cons.IH[OF this] show ?thesis using Message M False R
        by (simp add: split_beta)
    qed
  qed (use Cons.prems in simp_all)
qed

lemma stream_loop_no_update:
  "\<not> receivedUpdate st \<Longrightarrow> \<forall>e \<in> set es. is_message e \<and> \<not> is_update e \<Longrightarrow>
   stream_loop r m st es = ([], st, Waiting)"
proof (induction es)
  case Nil
  then show ?case by simp
next
  case (Cons e es)
  then obtain msg where e: "e = Message msg" by (cases e) simp_all
  with Cons.prems have "stream_message r m st msg = (st, [], False)"
    by (cases msg) simp_all
  then show ?case using Cons e by simp
qed

lemma stream_loop_mode_sticky:
  "modeByType st t = Some md \<Longrightarrow> modeByType (fst (snd (stream_loop r m st es))) t = Some md"
proof (induction es arbitrary: st)
  case Nil
  then show ?case by simp
next
  case (Cons e es)
  show ?case
  proof (cases e)
    case (Message msg)
    have "modeByType (fst (stream_message r m st msg)) t = Some md"
      using stream_message_mode_sticky[OF Cons.prems] .
    from Cons.IH[OF this] this show ?thesis using Message
      by (simp add: split_beta)
  qed (use Cons.prems in simp_all)
qed

lemma snapshot_run:
  assumes "modeByType st (js ''chat'') = Some Snapshot"
    and "prevContentByType st (js ''chat'') = Some p"
    and "lastBufferType st = Some (js ''chat'')"
    and "growing (p # cs)"
  shows "p @ frame_texts (fst (stream_loop r m st (map chat_update cs))) = last (p # cs) \<and>
         modeByType (fst (snd (stream_loop r m st (map chat_update cs)))) (js ''chat'') = Some Snapshot \<and>
         snd (snd (stream_loop r m st (map chat_update cs))) = Waiting"
  using assms
proof (induction cs arbitrary: st p)
  case Nil
  then show ?case by (simp add: frame_texts_simps)
next
  case (Cons d ds)
  let ?st0 = "st\<lparr>receivedUpdate := True\<rparr>"
  let ?st1 = "?st0\<lparr>prevContentByType := (prevContentByType ?st0)(js ''chat'' \<mapsto> d)\<rparr>"
  from Cons.prems have g: "startsWith d p" "d \<noteq> p" "growing (d # ds)" by simp_all
  have ne: "slice d (length p) \<noteq> []" "d \<noteq> []" "p @ slice d (length p) = d"
    using growing_nonempty[OF g(1,2)] by simp_all
  have po: "prev_of ?st0 (js ''chat'') = p" using Cons.prems(2) by (simp add: prev_of_def)
  have rc: "reconcile ?st0 (js ''chat'') d = (slice d (length p), ?st1)"
    using reconcile_snapshot[of ?st0 "js ''chat''" d] Cons.prems(1) po by simp
  have sm: "stream_message r m st (Update (Payload (js ''chat'') d)) =
      (?st1, [createSSEChunk r m (slice d (length p)) None], False)"
    using stream_message_same_type[of st "js ''chat''" d r m] Cons.prems(3) ne rc by simp
  have IH: "d @ frame_texts (fst (stream_loop r m ?st1 (map chat_update ds))) = last (d # ds) \<and>
         modeByType (fst (snd (stream_loop r m ?st1 (map chat_update ds)))) (js ''chat'') = Some Snapshot \<and>
         snd (snd (stream_loop r m ?st1 (map chat_update ds))) = Waiting"
    using Cons.IH[of ?st1 d] Cons.prems(1,3) g(3) by simp
  obtain out st' w where L: "stream_loop r m ?st1 (map chat_update ds) = (out, st', w)"
    by (cases "stream_loop r m ?st1 (map chat_update ds)")
  have "stream_loop r m st (map chat_update (d # ds)) =
        (createSSEChunk r m (slice d (length p)) None # out, st', w)"
    using sm L by (simp add: chat_update_def)
  then show ?case using IH L ne(3) by (simp add: frame_texts_simps) (metis append.assoc)
qed

lemma delta_run:
  assumes "modeByType st (js ''chat'') = Some Delta"
    and "lastBufferType st = Some (js ''chat'')"
    and "\<forall>c \<in> set cs. c \<noteq> []"
  shows "frame_texts (fst (stream_loop r m st (map chat_update cs))) = concat cs \<and>
         modeByType (fst (snd (stream_loop r m st (map chat_update cs)))) (js ''chat'') = Some Delta \<and>
         snd (snd (stream_loop r m st (map chat_update cs))) = Waiting"
  using assms
proof (induction cs arbitrary: st)
  case Nil
  then show ?case by (simp add: frame_texts_simps)
next
  case (Cons d ds)
  let ?st0 = "st\<lparr>receivedUpdate := True\<rparr>"
  let ?st1 = "?st0\<lparr>prevContentByType := (prevContentByType ?st0)(js ''chat'' \<mapsto> prev_of ?st0 (js ''chat'') @ d)\<rparr>"
  from Cons.prems have ne: "d \<noteq> []" and rest: "\<forall>c \<in> set ds. c \<noteq> []" by simp_all
  have rc: "reconcile ?st0 (js ''chat'') d = (d, ?st1)"
    using reconcile_delta[of ?st0 "js ''chat''" d] Cons.prems(1) by simp
  have sm: "stream_message r m st (Update (Payload (js ''chat'') d)) =
      (?st1, [createSSEChunk r m d None], False)"
    using stream_message_same_type[of st "js ''chat''" d r m] Cons.prems(2) ne rc by simp
  have IH: "frame_texts (fst (stream_loop r m ?st1 (map chat_update ds))) = concat ds \<and>
         modeByType (fst (snd (stream_loop r m ?st1 (map chat_update ds)))) (js ''chat'') = Some Delta \<and>
         snd (snd (stream_loop r m ?st1 (map chat_update ds))) = Waiting"
    using Cons.IH[of ?st1] Cons.prems(1,2) rest by simp
  obtain out st' w where L: "stream_loop r m ?st1 (map chat_update ds) = (out, st', w)"
    by (cases "stream_loop r m ?st1 (map chat_update ds)")
  have "stream_loop r m st (map chat_update (d # ds)) = (createSSEChunk r m d None # out, st', w)"
    using sm L by (simp add: chat_update_def)
  then show ?case using IH L by (simp add: frame_texts_simps)
qed

subsection \<open>The aggregate sink simulates the event-stream sink\<close>

text \<open>
  The two reconciler blocks compute the same function. Both sinks move through the same
  states, and what the aggregate sink appends to \<^verbatim>\<open>fullContent\<close> is the text of the frames
  the event-stream sink yields.
\<close>

lemma nonStream_framer_sim:
  "nonStream_framer st full t =
     (fst (stream_framer r m st t), full @ frame_texts (snd (stream_framer r m st t)))"
  by (simp add: stream_framer_def nonStream_framer_def frame_texts_simps)

lemma nonStream_detect_mode_eq: "nonStream_detect_mode st t c = detect_mode st t c"
  by (simp add: nonStream_detect_mode_def detect_mode_def)

lemma nonStream_reconcile_eq: "nonStream_reconcile st t c = reconcile st t c"
  by (simp add: nonStream_reconcile_def reconcile_def nonStream_detect_mode_eq)

lemma nonStream_content_sim:
  "nonStream_content st full t c =
     (fst (stream_content r m st t c), full @ frame_texts (snd (stream_content r m st t c)))"
  by (simp add: stream_content_def nonStream_content_def nonStream_reconcile_eq
        nonStream_framer_sim[of st full t r m] frame_texts_simps split: prod.splits)

lemma nonStream_message_sim:
  "nonStream_message st full msg =
     (fst (stream_message r m st msg), full @ frame_texts (fst (snd (stream_message r m st msg))),
      snd (snd (stream_message r m st msg)))"
proof (cases msg)
  case (Update b)
  then show ?thesis
    by (cases b) (simp_all add: Let_def nonStream_content_sim[of _ _ _ _ r m] frame_texts_Nil split: prod.splits)
qed (simp_all add: frame_texts_simps)

lemma nonStream_loop_sim:
  "nonStream_loop st full es =
     (full @ frame_texts (fst (stream_loop r m st es)), snd (stream_loop r m st es))"
proof (induction es arbitrary: st full)
  case Nil
  then show ?case by (simp add: frame_texts_Nil)
next
  case (Cons e es)
  show ?case
  proof (cases e)
    case (Message msg)
    then show ?thesis
      using Cons.IH
      by (simp add: nonStream_message_sim[of _ _ _ r m] frame_texts_append split: prod.splits)
  qed (simp_all add: frame_texts_Nil)
qed

lemma nonStream_loop_iterator:
  "nonStream_loop st full (wsMessageIterator q) = nonStream_loop st full q"
  by (simp add: nonStream_loop_sim[of _ _ _ "[]" "[]"] stream_loop_iterator)

lemma stream_status:
  "snd (streamChatGenerator r m Opened q) = snd (snd (stream_loop r m init_session q))"
  by (cases "stream_loop r m init_session q" rule: prod_cases3)
     (simp add: streamChatGenerator_def stream_loop_iterator Let_def split: status.splits)

lemma nonStream_status:
  "nonStreamChat Opened Response early q =
     (case snd (snd (stream_loop r m init_session q)) of
        Ended \<Rightarrow> Resolved (frame_texts (fst (stream_loop r m init_session q)))
      | Waiting \<Rightarrow> Pending)"
  by (cases "stream_loop r m init_session q" rule: prod_cases3)
     (simp add: nonStreamChat_def stream_loop_iterator nonStream_loop_sim[of _ _ _ r m]
        split: status.splits)

section \<open>The claims\<close>

subsection \<open>C1: growing snapshots\<close>

text \<open>
  Claim C1. For a sequence of non-empty \<^verbatim>\<open>chat\<close> updates whose contents are growing (each
  has the previous one as a proper prefix), the frames' texts concatenate to the last
  content, in both sinks, and the mode of \<^verbatim>\<open>chat\<close> is undetermined after the first event
  and \<open>Snapshot\<close> from the second event on.
\<close>

theorem snapshot_mode_concat:
  assumes "c1 \<noteq> []" and "growing (c1 # cs)"
  shows "frame_texts (fst (stream_loop requestId model init_session (map chat_update (c1 # cs))))
           = last (c1 # cs)
       \<and> fst (nonStream_loop init_session [] (map chat_update (c1 # cs))) = last (c1 # cs)
       \<and> modeByType (fst (snd (stream_loop requestId model init_session (map chat_update (c1 # cs)))))
            (js ''chat'') = (if cs = [] then None else Some Snapshot)
       \<and> modeByType (fst (snd (nonStream_loop init_session [] (map chat_update (c1 # cs)))))
            (js ''chat'') = (if cs = [] then None else Some Snapshot)"
proof -
  let ?r = requestId and ?m = model
  let ?st1 = "init_session\<lparr>receivedUpdate := True, lastBufferType := Some (js ''chat''),
                   prevContentByType := [js ''chat'' \<mapsto> c1]\<rparr>"
  have first: "stream_message ?r ?m init_session (Update (Payload (js ''chat'') c1)) =
      (?st1, [createSSEChunk ?r ?m c1 None], False)"
    using stream_message_first_chat[OF assms(1)] .
  have S: "frame_texts (fst (stream_loop ?r ?m init_session (map chat_update (c1 # cs)))) = last (c1 # cs)
       \<and> modeByType (fst (snd (stream_loop ?r ?m init_session (map chat_update (c1 # cs)))))
            (js ''chat'') = (if cs = [] then None else Some Snapshot)"
  proof (cases cs)
    case Nil
    then show ?thesis using first
      by (simp add: chat_update_def frame_texts_simps init_session_def)
  next
    case (Cons c2 ds)
    let ?st1' = "?st1\<lparr>receivedUpdate := True\<rparr>"
    let ?st2 = "?st1'\<lparr>modeByType := (modeByType ?st1')(js ''chat'' \<mapsto> Snapshot),
                      prevContentByType := (prevContentByType ?st1')(js ''chat'' \<mapsto> c2)\<rparr>"
    from assms(2) Cons have g: "startsWith c2 c1" "c2 \<noteq> c1" "growing (c2 # ds)" by simp_all
    have ne: "slice c2 (length c1) \<noteq> []" "c2 \<noteq> []" "c1 @ slice c2 (length c1) = c2"
      using growing_nonempty[OF g(1,2)] by simp_all
    have po: "prev_of ?st1' (js ''chat'') = c1" by (simp add: prev_of_def)
    have md: "modeByType ?st1' (js ''chat'') = None" by (simp add: init_session_def)
    have rc: "reconcile ?st1' (js ''chat'') c2 = (slice c2 (length c1), ?st2)"
      using reconcile_detect_snapshot[of ?st1' "js ''chat''" c2] md po g(1) assms(1) by simp
    have second: "stream_message ?r ?m ?st1 (Update (Payload (js ''chat'') c2)) =
        (?st2, [createSSEChunk ?r ?m (slice c2 (length c1)) None], False)"
      using stream_message_same_type[of ?st1 "js ''chat''" c2 ?r ?m] ne rc by simp
    have run: "c2 @ frame_texts (fst (stream_loop ?r ?m ?st2 (map chat_update ds))) = last (c2 # ds) \<and>
         modeByType (fst (snd (stream_loop ?r ?m ?st2 (map chat_update ds)))) (js ''chat'') = Some Snapshot \<and>
         snd (snd (stream_loop ?r ?m ?st2 (map chat_update ds))) = Waiting"
      using snapshot_run[of ?st2 c2 ds ?r ?m] g(3) by simp
    obtain out st' w where L: "stream_loop ?r ?m ?st2 (map chat_update ds) = (out, st', w)"
      by (cases "stream_loop ?r ?m ?st2 (map chat_update ds)")
    have "stream_loop ?r ?m init_session (map chat_update (c1 # c2 # ds)) =
        (createSSEChunk ?r ?m c1 None # createSSEChunk ?r ?m (slice c2 (length c1)) None # out, st', w)"
      using first second L by (simp add: chat_update_def)
    then show ?thesis using Cons run L ne(3)
      by (simp add: frame_texts_simps) (metis append.assoc)
  qed
  show ?thesis
    using S nonStream_loop_sim[of init_session "[]" "map chat_update (c1 # cs)" ?r ?m]
    by simp
qed

theorem snapshot_mode_concat_witness:
  "js ''Hello'' \<noteq> [] \<and> growing [js ''Hello'', js ''Hello world'']
   \<and> frame_texts (fst (stream_loop (js ''r'') (js ''m'') init_session
        (map chat_update [js ''Hello'', js ''Hello world'']))) = js ''Hello world''
   \<and> fst (nonStream_loop init_session []
        (map chat_update [js ''Hello'', js ''Hello world''])) = js ''Hello world''
   \<and> modeByType (fst (snd (stream_loop (js ''r'') (js ''m'') init_session
        (map chat_update [js ''Hello'', js ''Hello world''])))) (js ''chat'') = Some Snapshot"
proof -
  have h1: "js ''Hello'' \<noteq> []" by (simp add: js_def)
  have h2: "growing [js ''Hello'', js ''Hello world'']" by (simp add: js_def startsWith_def)
  show ?thesis
    using h1 h2 snapshot_mode_concat[OF h1 h2, of "js ''r''" "js ''m''"] by simp
qed

subsection \<open>C2: deltas\<close>

text \<open>
  Claim C2. For a sequence of non-empty \<^verbatim>\<open>chat\<close> updates whose second content does not
  start with the first, the mode of \<^verbatim>\<open>chat\<close> is \<open>Delta\<close> after the second event and stays
  so, and the frames' texts concatenate to the concatenation of the raw contents, in both
  sinks.
\<close>

theorem delta_mode_concat:
  assumes "c1 \<noteq> []" and "c2 \<noteq> []" and "\<forall>c \<in> set cs. c \<noteq> []" and "\<not> startsWith c2 c1"
  shows "frame_texts (fst (stream_loop requestId model init_session (map chat_update (c1 # c2 # cs))))
           = concat (c1 # c2 # cs)
       \<and> fst (nonStream_loop init_session [] (map chat_update (c1 # c2 # cs))) = concat (c1 # c2 # cs)
       \<and> modeByType (fst (snd (stream_loop requestId model init_session [chat_update c1, chat_update c2])))
            (js ''chat'') = Some Delta
       \<and> modeByType (fst (snd (stream_loop requestId model init_session (map chat_update (c1 # c2 # cs)))))
            (js ''chat'') = Some Delta
       \<and> modeByType (fst (snd (nonStream_loop init_session [] (map chat_update (c1 # c2 # cs)))))
            (js ''chat'') = Some Delta"
proof -
  let ?r = requestId and ?m = model
  let ?st1 = "init_session\<lparr>receivedUpdate := True, lastBufferType := Some (js ''chat''),
                   prevContentByType := [js ''chat'' \<mapsto> c1]\<rparr>"
  let ?st1' = "?st1\<lparr>receivedUpdate := True\<rparr>"
  let ?st2 = "?st1'\<lparr>modeByType := (modeByType ?st1')(js ''chat'' \<mapsto> Delta),
                    prevContentByType := (prevContentByType ?st1')(js ''chat'' \<mapsto> c1 @ c2)\<rparr>"
  have first: "stream_message ?r ?m init_session (Update (Payload (js ''chat'') c1)) =
      (?st1, [createSSEChunk ?r ?m c1 None], False)"
    using stream_message_first_chat[OF assms(1)] .
  have po: "prev_of ?st1' (js ''chat'') = c1" by (simp add: prev_of_def)
  have md: "modeByType ?st1' (js ''chat'') = None" by (simp add: init_session_def)
  have rc: "reconcile ?st1' (js ''chat'') c2 = (c2, ?st2)"
    using reconcile_detect_delta[of ?st1' "js ''chat''" c2] md po assms(1,4) by simp
  have second: "stream_message ?r ?m ?st1 (Update (Payload (js ''chat'') c2)) =
      (?st2, [createSSEChunk ?r ?m c2 None], False)"
    using stream_message_same_type[of ?st1 "js ''chat''" c2 ?r ?m] assms(2) rc by simp
  have S: "frame_texts (fst (stream_loop ?r ?m init_session (map chat_update (c1 # c2 # ds))))
           = concat (c1 # c2 # ds)
       \<and> modeByType (fst (snd (stream_loop ?r ?m init_session (map chat_update (c1 # c2 # ds)))))
            (js ''chat'') = Some Delta" if "\<forall>c \<in> set ds. c \<noteq> []" for ds
  proof -
    have run: "frame_texts (fst (stream_loop ?r ?m ?st2 (map chat_update ds))) = concat ds \<and>
         modeByType (fst (snd (stream_loop ?r ?m ?st2 (map chat_update ds)))) (js ''chat'') = Some Delta \<and>
         snd (snd (stream_loop ?r ?m ?st2 (map chat_update ds))) = Waiting"
      using delta_run[of ?st2 ds ?r ?m] that by simp
    obtain out st' w where L: "stream_loop ?r ?m ?st2 (map chat_update ds) = (out, st', w)"
      by (cases "stream_loop ?r ?m ?st2 (map chat_update ds)")
    have "stream_loop ?r ?m init_session (map chat_update (c1 # c2 # ds)) =
        (createSSEChunk ?r ?m c1 None # createSSEChunk ?r ?m c2 None # out, st', w)"
      using first second L by (simp add: chat_update_def)
    then show ?thesis using run L by (simp add: frame_texts_simps)
  qed
  show ?thesis
    using S[of cs] S[of "[]"] assms(3)
      nonStream_loop_sim[of init_session "[]" "map chat_update (c1 # c2 # cs)" ?r ?m]
    by simp
qed

theorem delta_mode_concat_witness:
  "js ''ab'' \<noteq> [] \<and> js ''cd'' \<noteq> [] \<and> js ''ef'' \<noteq> [] \<and> \<not> startsWith (js ''cd'') (js ''ab'')
   \<and> frame_texts (fst (stream_loop (js ''r'') (js ''m'') init_session
        (map chat_update [js ''ab'', js ''cd'', js ''ef'']))) = js ''abcdef''
   \<and> fst (nonStream_loop init_session []
        (map chat_update [js ''ab'', js ''cd'', js ''ef''])) = js ''abcdef''
   \<and> modeByType (fst (snd (stream_loop (js ''r'') (js ''m'') init_session
        [chat_update (js ''ab''), chat_update (js ''cd'')]))) (js ''chat'') = Some Delta"
proof -
  have h1: "js ''ab'' \<noteq> []" and h2: "js ''cd'' \<noteq> []" by (simp_all add: js_def)
  have h3: "\<forall>c \<in> set [js ''ef'']. c \<noteq> []" by (simp add: js_def)
  have h4: "\<not> startsWith (js ''cd'') (js ''ab'')" by (simp add: js_def startsWith_def)
  have c: "concat [js ''ab'', js ''cd'', js ''ef''] = js ''abcdef''" by (simp add: js_def)
  show ?thesis
    using h1 h2 h3 h4 c delta_mode_concat[OF h1 h2 h3 h4, of "js ''r''" "js ''m''"] by simp
qed

subsection \<open>C3: closing the thinking block at the end of the session\<close>

text \<open>
  When the loop breaks on a message, that message is a terminal state event and the
  thinking block is closed: a loop that has ended on messages alone is outside any thinking
  block.
\<close>

lemma stream_message_break_closes:
  assumes "snd (snd (stream_message r m st msg))"
  shows "\<not> inThinkingBlock (fst (stream_message r m st msg))"
proof (cases msg)
  case (Update b)
  then show ?thesis using assms
    by (cases b) (auto simp: Let_def split_beta split: if_splits)
qed (use assms in \<open>auto split: if_splits\<close>)

lemma state_end_closes_thinking:
  "snd (snd (stream_loop r m st (map Message ms))) = Ended \<Longrightarrow>
   \<not> inThinkingBlock (fst (snd (stream_loop r m st (map Message ms))))"
proof (induction ms arbitrary: st)
  case Nil
  then show ?case by simp
next
  case (Cons msg ms)
  show ?case
  proof (cases "snd (snd (stream_message r m st msg))")
    case True
    then show ?thesis using stream_message_break_closes[OF True]
      by (simp add: split_beta)
  next
    case False
    then show ?thesis using Cons.IH[of "fst (stream_message r m st msg)"] Cons.prems
      by (simp add: split_beta)
  qed
qed

text \<open>
  Claim C3 says that the markers are balanced however the session ends. The code closes
  an open thinking block only when the session ends by a terminal state event; on a socket
  close or error the loop breaks at once. For a \<^verbatim>\<open>thinking\<close> update followed by a close, both
  sinks end with \<^verbatim>\<open><think>\<close> unmatched; the same update followed by a terminal state event
  gets its \<^verbatim>\<open></think>\<close>.
\<close>

theorem think_unclosed_on_socket_close:
  "streamChatGenerator (js ''r'') (js ''m'') Opened
      [Message (Update (Payload (js ''thinking'') (js ''x''))), Close] =
     ([createSSEChunk (js ''r'') (js ''m'') [] None,
       createSSEChunk (js ''r'') (js ''m'') (js ''<think>'') None,
       createSSEChunk (js ''r'') (js ''m'') (js ''x'') None,
       createSSEChunk (js ''r'') (js ''m'') [] (Some (js ''stop'')),
       DONE], Ended)
   \<and> nonStreamChat Opened Response early
      [Message (Update (Payload (js ''thinking'') (js ''x''))), Close] = Resolved (js ''<think>x'')
   \<and> nonStreamChat Opened Response early
      [Message (Update (Payload (js ''thinking'') (js ''x''))), Error] = Resolved (js ''<think>x'')
   \<and> streamChatGenerator (js ''r'') (js ''m'') Opened
      [Message (Update (Payload (js ''thinking'') (js ''x''))), Message (State False)] =
     ([createSSEChunk (js ''r'') (js ''m'') [] None,
       createSSEChunk (js ''r'') (js ''m'') (js ''<think>'') None,
       createSSEChunk (js ''r'') (js ''m'') (js ''x'') None,
       createSSEChunk (js ''r'') (js ''m'') (js ''</think>'') None,
       createSSEChunk (js ''r'') (js ''m'') [] (Some (js ''stop'')),
       DONE], Ended)
   \<and> nonStreamChat Opened Response early
      [Message (Update (Payload (js ''thinking'') (js ''x''))), Message (State False)]
      = Resolved (js ''<think>x</think>'')"
  by (simp add: eval_defs)

subsection \<open>C4: the aggregate sink against the event-stream sink\<close>




subsection \<open>C5: a terminal-looking state before and after the first update\<close>

text \<open>
  Claim C5. A state event with \<^verbatim>\<open>inProgress = false\<close> that arrives when no update event has
  arrived yet does not end the session: both sinks go on waiting, and behave as if the
  event had not been sent. The same event after at least one update event, in a session
  that has not ended yet, ends it: the generator returns, whatever follows on the socket is
  not read, and the aggregate sink resolves.
\<close>

theorem stale_state_ignored:
  "((\<forall>e \<in> set es. is_message e \<and> \<not> is_update e) \<longrightarrow>
      snd (streamChatGenerator requestId model Opened (es @ [Message (State False)])) = Waiting
      \<and> nonStreamChat Opened Response early (es @ [Message (State False)]) = Pending
      \<and> streamChatGenerator requestId model Opened (es @ Message (State False) # rest)
          = streamChatGenerator requestId model Opened (es @ rest)
      \<and> nonStreamChat Opened Response early (es @ Message (State False) # rest)
          = nonStreamChat Opened Response early (es @ rest))
   \<and> ((\<exists>e \<in> set es. is_update e) \<and> snd (streamChatGenerator requestId model Opened es) = Waiting \<longrightarrow>
      snd (streamChatGenerator requestId model Opened (es @ Message (State False) # rest)) = Ended
      \<and> streamChatGenerator requestId model Opened (es @ Message (State False) # rest)
          = streamChatGenerator requestId model Opened (es @ [Message (State False)])
      \<and> (\<exists>s. nonStreamChat Opened Response early (es @ Message (State False) # rest) = Resolved s))"
proof (intro conjI impI)
  let ?r = requestId and ?m = model
  assume A: "\<forall>e \<in> set es. is_message e \<and> \<not> is_update e"
  have L: "stream_loop ?r ?m init_session es = ([], init_session, Waiting)"
    using stream_loop_no_update[of init_session es ?r ?m] A by (simp add: init_session_def)
  have S: "stream_message ?r ?m init_session (State False) = (init_session, [], False)"
    by (simp add: init_session_def)
  have E: "stream_loop ?r ?m init_session (es @ Message (State False) # xs)
         = stream_loop ?r ?m init_session xs" for xs
    using stream_loop_append[of ?r ?m init_session es "Message (State False) # xs"] L S
    by (simp split: prod.splits)
  have E': "stream_loop ?r ?m init_session (es @ xs) = stream_loop ?r ?m init_session xs" for xs
    using stream_loop_append[of ?r ?m init_session es xs] L by simp
  show "snd (streamChatGenerator ?r ?m Opened (es @ [Message (State False)])) = Waiting"
    using E[of "[]"] by (simp add: stream_status)
  show "nonStreamChat Opened Response early (es @ [Message (State False)]) = Pending"
    using E[of "[]"] by (simp add: nonStream_status[of _ _ ?r ?m])
  show "streamChatGenerator ?r ?m Opened (es @ Message (State False) # rest)
          = streamChatGenerator ?r ?m Opened (es @ rest)"
    using E[of rest] E'[of rest] by (simp add: streamChatGenerator_def stream_loop_iterator)
  show "nonStreamChat Opened Response early (es @ Message (State False) # rest)
          = nonStreamChat Opened Response early (es @ rest)"
    using E[of rest] E'[of rest] by (simp add: nonStream_status[of _ _ ?r ?m] cong: status.case_cong)
next
  let ?r = requestId and ?m = model
  assume "(\<exists>e \<in> set es. is_update e) \<and> snd (streamChatGenerator ?r ?m Opened es) = Waiting"
  then have U: "\<exists>e \<in> set es. is_update e"
    and W: "snd (snd (stream_loop ?r ?m init_session es)) = Waiting"
    by (simp_all add: stream_status)
  obtain out st where L: "stream_loop ?r ?m init_session es = (out, st, Waiting)"
    using W by (cases "stream_loop ?r ?m init_session es" rule: prod_cases3) simp
  have R: "receivedUpdate st"
    using stream_loop_received[OF W] U L by simp
  have E: "stream_loop ?r ?m init_session (es @ Message (State False) # xs)
         = (out @ (if inThinkingBlock st then [createSSEChunk ?r ?m (js ''</think>'') None] else []),
            st\<lparr>inThinkingBlock := False\<rparr>, Ended)" for xs
    using stream_loop_append[OF W, of "Message (State False) # xs"] L R by simp
  show "snd (streamChatGenerator ?r ?m Opened (es @ Message (State False) # rest)) = Ended"
    using E[of rest] by (simp add: stream_status)
  show "streamChatGenerator ?r ?m Opened (es @ Message (State False) # rest)
          = streamChatGenerator ?r ?m Opened (es @ [Message (State False)])"
    using E[of rest] E[of "[]"] by (simp add: streamChatGenerator_def stream_loop_iterator)
  show "\<exists>s. nonStreamChat Opened Response early (es @ Message (State False) # rest) = Resolved s"
    using E[of rest] by (simp add: nonStream_status[of _ _ ?r ?m])
qed

theorem stale_state_ignored_witness:
  "is_message (Message Other) \<and> \<not> is_update (Message Other)
   \<and> snd (streamChatGenerator (js ''r'') (js ''m'') Opened
        [Message Other, Message (State False)]) = Waiting
   \<and> nonStreamChat Opened Response [] [Message Other, Message (State False)] = Pending
   \<and> is_update (chat_update (js ''Hi''))
   \<and> snd (streamChatGenerator (js ''r'') (js ''m'') Opened [chat_update (js ''Hi'')]) = Waiting
   \<and> snd (streamChatGenerator (js ''r'') (js ''m'') Opened
        [chat_update (js ''Hi''), Message (State False), chat_update (js ''more'')]) = Ended
   \<and> (\<exists>s. nonStreamChat Opened Response []
        [chat_update (js ''Hi''), Message (State False), chat_update (js ''more'')] = Resolved s)"
proof -
  have h1: "\<forall>e \<in> set [Message Other]. is_message e \<and> \<not> is_update e" by simp
  have h2: "(\<exists>e \<in> set [chat_update (js ''Hi'')]. is_update e)
      \<and> snd (streamChatGenerator (js ''r'') (js ''m'') Opened [chat_update (js ''Hi'')]) = Waiting"
    by (simp add: eval_defs)
  note t1 = stale_state_ignored[where es = "[Message Other]" and requestId = "js ''r''"
      and model = "js ''m''" and early = "[]" and rest = "[]",
      THEN conjunct1, THEN mp, OF h1, unfolded append.simps]
  note t2 = stale_state_ignored[where es = "[chat_update (js ''Hi'')]" and requestId = "js ''r''"
      and model = "js ''m''" and early = "[]" and rest = "[chat_update (js ''more'')]", THEN conjunct2, THEN mp, OF h2, unfolded append.simps]
  have a1: "snd (streamChatGenerator (js ''r'') (js ''m'') Opened
        [Message Other, Message (State False)]) = Waiting"
    using t1 by (rule conjunct1)
  have a2: "nonStreamChat Opened Response [] [Message Other, Message (State False)] = Pending"
    using t1 by (rule conjunct2[THEN conjunct1])
  have b1: "snd (streamChatGenerator (js ''r'') (js ''m'') Opened
        [chat_update (js ''Hi''), Message (State False), chat_update (js ''more'')]) = Ended"
    using t2 by (rule conjunct1)
  have b2: "\<exists>s. nonStreamChat Opened Response []
        [chat_update (js ''Hi''), Message (State False), chat_update (js ''more'')] = Resolved s"
    using t2 by (rule conjunct2[THEN conjunct2])
  have u: "is_update (chat_update (js ''Hi''))" by (simp add: chat_update_def)
  show ?thesis
    using a1 a2 b1 b2 u h2 by simp
qed

subsection \<open>C6: a socket close or error in the aggregate sink\<close>

text \<open>
  Claim C6 says that \<^verbatim>\<open>nonStreamChat\<close> rejects when the socket closes or errors before a
  terminal state. The loop handles both events by \<^verbatim>\<open>break\<close>, and the function then returns
  \<^verbatim>\<open>fullContent\<close>: after one \<^verbatim>\<open>chat\<close> update and a close, the promise resolves with the
  partial content.
\<close>

theorem nonStream_close_counterexample:
  "nonStreamChat Opened Response [] [chat_update (js ''Hi''), Close] = Resolved (js ''Hi'')"
  by (simp add: eval_defs)

text \<open>
  Claim C6, amended. If the socket closes or errors while the loop is still running, the
  promise resolves with the content accumulated so far, and nothing after that event is
  read. The promise is rejected exactly when the socket fails to open or the trigger call
  throws, and the rejection message wraps the text of that cause.
\<close>

theorem nonStream_resolves_on_close:
  "((ev = Close \<or> ev = Error) \<and> snd (snd (nonStream_loop init_session [] es)) = Waiting \<longrightarrow>
      nonStreamChat Opened Response early (es @ ev # rest)
        = Resolved (fst (nonStream_loop init_session [] es)))
   \<and> (nonStreamChat sock resp early' queue = Rejected msg \<longleftrightarrow>
        (\<exists>e. msg = nonStream_error_prefix @ e \<and>
             (sock = OpenFailed e \<or> (sock = Opened \<and> resp = FetchThrows e))))"
proof (intro conjI impI)
  assume A: "(ev = Close \<or> ev = Error) \<and> snd (snd (nonStream_loop init_session [] es)) = Waiting"
  then have W: "snd (snd (stream_loop [] [] init_session es)) = Waiting"
    by (simp add: nonStream_loop_sim[of _ _ _ "[]" "[]"])
  have "stream_loop [] [] init_session (es @ ev # rest)
      = (fst (stream_loop [] [] init_session es), fst (snd (stream_loop [] [] init_session es)), Ended)"
    using stream_loop_append[OF W, of "ev # rest"] A by auto
  then show "nonStreamChat Opened Response early (es @ ev # rest)
        = Resolved (fst (nonStream_loop init_session [] es))"
    by (simp add: nonStream_status[of _ _ "[]" "[]"] nonStream_loop_sim[of _ _ _ "[]" "[]"])
next
  show "nonStreamChat sock resp early' queue = Rejected msg \<longleftrightarrow>
        (\<exists>e. msg = nonStream_error_prefix @ e \<and>
             (sock = OpenFailed e \<or> (sock = Opened \<and> resp = FetchThrows e)))"
  proof (cases sock)
    case Opened
    show ?thesis
    proof (cases resp)
      case Response
      then show ?thesis using Opened
        by (simp add: nonStream_status[of _ _ "[]" "[]"] split: status.splits)
    next
      case (FetchThrows e)
      then show ?thesis using Opened by (auto simp add: nonStreamChat_def)
    qed
  next
    case (OpenFailed e)
    then show ?thesis by (auto simp add: nonStreamChat_def)
  qed
qed

theorem nonStream_resolves_on_close_witness:
  "snd (snd (nonStream_loop init_session [] [chat_update (js ''par''), chat_update (js ''partial'')]))
     = Waiting
   \<and> nonStreamChat Opened Response [Message Other]
       [chat_update (js ''par''), chat_update (js ''partial''), Error, chat_update (js ''late'')]
     = Resolved (js ''partial'')
   \<and> nonStreamChat Opened (FetchThrows (js ''TypeError'')) [] [] =
       Rejected (nonStream_error_prefix @ js ''TypeError'')"
proof -
  have h: "(Error = Close \<or> Error = Error)
      \<and> snd (snd (nonStream_loop init_session []
            [chat_update (js ''par''), chat_update (js ''partial'')])) = Waiting"
    by (simp add: eval_defs)
  have v: "fst (nonStream_loop init_session []
            [chat_update (js ''par''), chat_update (js ''partial'')]) = js ''partial''"
    by (simp add: eval_defs)
  note t = nonStream_resolves_on_close[where ev = Error
      and es = "[chat_update (js ''par''), chat_update (js ''partial'')]"
      and early = "[Message Other]" and rest = "[chat_update (js ''late'')]"
      and sock = Opened and resp = "FetchThrows (js ''TypeError'')" and early' = "[]"
      and queue = "[]" and msg = "nonStream_error_prefix @ js ''TypeError''"]
  have a: "nonStreamChat Opened Response [Message Other]
       [chat_update (js ''par''), chat_update (js ''partial''), Error, chat_update (js ''late'')]
     = Resolved (js ''partial'')"
    using t[THEN conjunct1, THEN mp, OF h, unfolded append.simps] v by simp
  have b: "nonStreamChat Opened (FetchThrows (js ''TypeError'')) [] [] =
       Rejected (nonStream_error_prefix @ js ''TypeError'')"
    using t[THEN conjunct2] by simp
  show ?thesis using h a b by simp
qed

subsection \<open>C7: the frames after a failure in the event-stream sink\<close>

text \<open>
  Claim C7 says that after a failure the generator yields an error-content frame, then a
  finish frame, then the sentinel. The \<^verbatim>\<open>catch\<close> block yields one chunk that carries both
  the error text and \<^verbatim>\<open>finish_reason: "stop"\<close>, then the sentinel: after the priming frame
  there are two frames, not three.
\<close>

theorem stream_failure_counterexample:
  "tl (fst (streamChatGenerator (js ''r'') (js ''m'') (OpenFailed (js ''boom'')) [])) =
     [Data \<lparr>chunk_id = js ''r'', chunk_model = js ''m'',
            delta_content = Some (stream_error_prefix @ js ''boom''),
            finish_reason = Some (js ''stop'')\<rparr>,
      DONE]"
  by (simp add: eval_defs stream_error_prefix_def)

text \<open>
  Claim C7, amended. The statements inside the loop catch their own exceptions; the
  failure that reaches the generator's \<^verbatim>\<open>catch\<close> is the socket failing to open. Then the
  output is the priming frame, exactly one frame that carries both the error text and the
  finish reason \<^verbatim>\<open>stop\<close>, and the sentinel. In every case, a generator that has returned has
  yielded, last, a chunk with finish reason \<^verbatim>\<open>stop\<close> and then the sentinel.
\<close>

theorem stream_failure_frames:
  "streamChatGenerator requestId model (OpenFailed e) queue =
     ([createSSEChunk requestId model [] None,
       createSSEChunk requestId model (stream_error_prefix @ e) (Some (js ''stop'')),
       DONE], Ended)
   \<and> (snd (streamChatGenerator requestId model sock queue) = Ended \<longrightarrow>
        (\<exists>fs c. fst (streamChatGenerator requestId model sock queue) = fs @ [Data c, DONE]
               \<and> finish_reason c = Some (js ''stop'')))"
proof (intro conjI impI)
  show "streamChatGenerator requestId model (OpenFailed e) queue =
     ([createSSEChunk requestId model [] None,
       createSSEChunk requestId model (stream_error_prefix @ e) (Some (js ''stop'')),
       DONE], Ended)"
    by (simp add: streamChatGenerator_def)
next
  assume E: "snd (streamChatGenerator requestId model sock queue) = Ended"
  show "\<exists>fs c. fst (streamChatGenerator requestId model sock queue) = fs @ [Data c, DONE]
               \<and> finish_reason c = Some (js ''stop'')"
  proof (cases sock)
    case Opened
    obtain out st w where L: "stream_loop requestId model init_session (wsMessageIterator queue) = (out, st, w)"
      by (cases "stream_loop requestId model init_session (wsMessageIterator queue)" rule: prod_cases3)
    with E Opened have w: "w = Ended"
      by (cases w) (simp_all add: streamChatGenerator_def Let_def)
    have "fst (streamChatGenerator requestId model sock queue) =
       (createSSEChunk requestId model [] None # out) @
       [Data \<lparr>chunk_id = requestId, chunk_model = model, delta_content = None,
              finish_reason = Some (js ''stop'')\<rparr>, DONE]"
      using Opened L w by (simp add: streamChatGenerator_def Let_def createSSEChunk_def)
    then show ?thesis by (metis SSEChunk.select_convs(4))
  next
    case (OpenFailed x)
    have "fst (streamChatGenerator requestId model sock queue) =
       [createSSEChunk requestId model [] None] @
       [Data \<lparr>chunk_id = requestId, chunk_model = model, delta_content = Some (stream_error_prefix @ x),
              finish_reason = Some (js ''stop'')\<rparr>, DONE]"
      using OpenFailed by (simp add: streamChatGenerator_def Let_def createSSEChunk_def stream_error_prefix_def)
    then show ?thesis by (metis SSEChunk.select_convs(4))
  qed
qed

theorem stream_failure_frames_witness:
  "snd (streamChatGenerator (js ''r'') (js ''m'') Opened [chat_update (js ''Hi''), Close]) = Ended
   \<and> (\<exists>fs c. fst (streamChatGenerator (js ''r'') (js ''m'') Opened [chat_update (js ''Hi''), Close])
          = fs @ [Data c, DONE] \<and> finish_reason c = Some (js ''stop''))
   \<and> streamChatGenerator (js ''r'') (js ''m'') (OpenFailed (js ''refused''))
        [chat_update (js ''Hi''), Close] =
     ([createSSEChunk (js ''r'') (js ''m'') [] None,
       createSSEChunk (js ''r'') (js ''m'') (stream_error_prefix @ js ''refused'') (Some (js ''stop'')),
       DONE], Ended)"
proof -
  have h: "snd (streamChatGenerator (js ''r'') (js ''m'') Opened [chat_update (js ''Hi''), Close]) = Ended"
    by (simp add: eval_defs)
  note t = stream_failure_frames[of "js ''r''" "js ''m''" "js ''refused''"
      "[chat_update (js ''Hi''), Close]" Opened]
  show ?thesis
    using h t[THEN conjunct1] t[THEN conjunct2, THEN mp, OF h] by simp
qed

subsection \<open>C8: the reconciler's mode and previous content\<close>

text \<open>
  Claim C8 says that under snapshot mode the previous content is never truncated. In
  snapshot mode the code stores the new content whatever its length: after the contents
  \<^verbatim>\<open>ab\<close>, \<^verbatim>\<open>abc\<close> the mode of \<^verbatim>\<open>chat\<close> is snapshot and the previous content is \<^verbatim>\<open>abc\<close>; a
  third content \<^verbatim>\<open>a\<close> leaves the mode snapshot and makes the previous content \<^verbatim>\<open>a\<close>.
\<close>

theorem snapshot_truncates_counterexample:
  "modeByType (fst (snd (stream_loop (js ''r'') (js ''m'') init_session
      [chat_update (js ''ab''), chat_update (js ''abc'')]))) (js ''chat'') = Some Snapshot
   \<and> prevContentByType (fst (snd (stream_loop (js ''r'') (js ''m'') init_session
      [chat_update (js ''ab''), chat_update (js ''abc'')]))) (js ''chat'') = Some (js ''abc'')
   \<and> modeByType (fst (snd (stream_loop (js ''r'') (js ''m'') init_session
      [chat_update (js ''ab''), chat_update (js ''abc''), chat_update (js ''a'')]))) (js ''chat'')
     = Some Snapshot
   \<and> prevContentByType (fst (snd (stream_loop (js ''r'') (js ''m'') init_session
      [chat_update (js ''ab''), chat_update (js ''abc''), chat_update (js ''a'')]))) (js ''chat'')
     = Some (js ''a'')
   \<and> length (js ''a'') < length (js ''abc'')"
  by (simp add: eval_defs)

text \<open>
  Claim C8, amended. Once the mode of a segment type is set it never changes, over any
  sequence of events and in both sinks. While the mode is snapshot, an update of that type
  with non-empty content replaces the previous content by that content (so the previous
  content is not shortened whenever the new content starts with it), and every other
  message leaves the previous content as it is.
\<close>

theorem mode_sticky_snapshot_overwrites:
  "(modeByType st t = Some md \<longrightarrow>
      modeByType (fst (snd (stream_loop requestId model st es))) t = Some md
      \<and> modeByType (fst (snd (nonStream_loop st full es))) t = Some md)
   \<and> (modeByType st t = Some Snapshot \<and> (t = js ''chat'' \<or> t = js ''thinking'') \<and> c \<noteq> [] \<longrightarrow>
      prevContentByType (fst (stream_message requestId model st (Update (Payload t c)))) t = Some c
      \<and> prevContentByType (fst (nonStream_message st full (Update (Payload t c)))) t = Some c
      \<and> (startsWith c (prev_of st t) \<longrightarrow> length (prev_of st t) \<le> length c))
   \<and> (modeByType st t = Some Snapshot \<and> (\<forall>d. d \<noteq> [] \<longrightarrow> msg \<noteq> Update (Payload t d)) \<longrightarrow>
      prevContentByType (fst (stream_message requestId model st msg)) t = prevContentByType st t
      \<and> prevContentByType (fst (nonStream_message st full msg)) t = prevContentByType st t)"
proof (intro conjI impI)
  let ?r = requestId and ?m = model
  assume "modeByType st t = Some md"
  then show "modeByType (fst (snd (stream_loop ?r ?m st es))) t = Some md"
    by (rule stream_loop_mode_sticky)
  then show "modeByType (fst (snd (nonStream_loop st full es))) t = Some md"
    by (simp add: nonStream_loop_sim[of st full es ?r ?m])
next
  let ?r = requestId and ?m = model
  let ?st0 = "st\<lparr>receivedUpdate := True\<rparr>"
  assume A: "modeByType st t = Some Snapshot \<and> (t = js ''chat'' \<or> t = js ''thinking'') \<and> c \<noteq> []"
  have "modeByType (fst (stream_framer ?r ?m ?st0 t)) t = Some Snapshot"
    using A by (simp add: stream_framer_keeps)
  then have "prevContentByType (snd (reconcile (fst (stream_framer ?r ?m ?st0 t)) t c)) t = Some c"
    by (simp add: reconcile_snapshot)
  then show S: "prevContentByType (fst (stream_message ?r ?m st (Update (Payload t c)))) t = Some c"
    using A by (auto simp add: Let_def split_beta stream_content_state)
  show "prevContentByType (fst (nonStream_message st full (Update (Payload t c)))) t = Some c"
    using S by (simp only: nonStream_message_sim[of st full _ ?r ?m] fst_conv)
  show "startsWith c (prev_of st t) \<Longrightarrow> length (prev_of st t) \<le> length c"
    by (rule startsWith_length)
next
  let ?r = requestId and ?m = model
  assume A: "modeByType st t = Some Snapshot \<and> (\<forall>d. d \<noteq> [] \<longrightarrow> msg \<noteq> Update (Payload t d))"
  show S: "prevContentByType (fst (stream_message ?r ?m st msg)) t = prevContentByType st t"
  proof (cases msg)
    case (Update b)
    show ?thesis
    proof (cases b)
      case Unparsable
      then show ?thesis using Update by simp
    next
      case (Payload t' d)
      then have "d \<noteq> [] \<Longrightarrow> t' \<noteq> t" using A Update by auto
      then have "d \<noteq> [] \<Longrightarrow>
          prevContentByType (snd (reconcile (fst (stream_framer ?r ?m (st\<lparr>receivedUpdate := True\<rparr>) t')) t' d)) t
            = prevContentByType st t"
        by (simp add: reconcile_prev_other stream_framer_keeps)
      then show ?thesis using Update Payload
        by (auto simp add: Let_def split_beta stream_content_state)
    qed
  qed simp_all
  show "prevContentByType (fst (nonStream_message st full msg)) t = prevContentByType st t"
    using S by (simp only: nonStream_message_sim[of st full _ ?r ?m] fst_conv)
qed

theorem mode_sticky_snapshot_overwrites_witness:
  "modeByType (init_session\<lparr>modeByType := [js ''chat'' \<mapsto> Snapshot],
        prevContentByType := [js ''chat'' \<mapsto> js ''ab'']\<rparr>) (js ''chat'') = Some Snapshot
   \<and> modeByType (fst (snd (stream_loop (js ''r'') (js ''m'')
        (init_session\<lparr>modeByType := [js ''chat'' \<mapsto> Snapshot],
            prevContentByType := [js ''chat'' \<mapsto> js ''ab'']\<rparr>)
        [chat_update (js ''x''), Message (State False)]))) (js ''chat'') = Some Snapshot
   \<and> prevContentByType (fst (stream_message (js ''r'') (js ''m'')
        (init_session\<lparr>modeByType := [js ''chat'' \<mapsto> Snapshot],
            prevContentByType := [js ''chat'' \<mapsto> js ''ab'']\<rparr>)
        (Update (Payload (js ''chat'') (js ''abc''))))) (js ''chat'') = Some (js ''abc'')
   \<and> prevContentByType (fst (stream_message (js ''r'') (js ''m'')
        (init_session\<lparr>modeByType := [js ''chat'' \<mapsto> Snapshot],
            prevContentByType := [js ''chat'' \<mapsto> js ''ab'']\<rparr>)
        (State True))) (js ''chat'') = Some (js ''ab'')"
proof -
  let ?st = "init_session\<lparr>modeByType := [js ''chat'' \<mapsto> Snapshot],
        prevContentByType := [js ''chat'' \<mapsto> js ''ab'']\<rparr>"
  have h1: "modeByType ?st (js ''chat'') = Some Snapshot" by simp
  have h2: "modeByType ?st (js ''chat'') = Some Snapshot
      \<and> (js ''chat'' = js ''chat'' \<or> js ''chat'' = js ''thinking'') \<and> js ''abc'' \<noteq> []"
    by (simp add: js_def)
  have h3: "modeByType ?st (js ''chat'') = Some Snapshot
      \<and> (\<forall>d. d \<noteq> [] \<longrightarrow> State True \<noteq> Update (Payload (js ''chat'') d))"
    by simp
  note t = mode_sticky_snapshot_overwrites[of ?st "js ''chat''" Snapshot "js ''r''" "js ''m''"
      "[chat_update (js ''x''), Message (State False)]" "[]" "js ''abc''" "State True"]
  have a: "modeByType (fst (snd (stream_loop (js ''r'') (js ''m'') ?st
        [chat_update (js ''x''), Message (State False)]))) (js ''chat'') = Some Snapshot"
    using t[THEN conjunct1, THEN mp, OF h1] by (rule conjunct1)
  have b: "prevContentByType (fst (stream_message (js ''r'') (js ''m'') ?st
        (Update (Payload (js ''chat'') (js ''abc''))))) (js ''chat'') = Some (js ''abc'')"
    using t[THEN conjunct2, THEN conjunct1, THEN mp, OF h2] by (rule conjunct1)
  have c: "prevContentByType (fst (stream_message (js ''r'') (js ''m'') ?st (State True)))
        (js ''chat'') = prevContentByType ?st (js ''chat'')"
    using t[THEN conjunct2, THEN conjunct2, THEN mp, OF h3] by (rule conjunct1)
  show ?thesis using h1 a b c by simp
qed

subsection \<open>C9: the headers of the trigger call\<close>

text \<open>
  Under their exact names the four server properties always hold the server's values:
  the later assignment replaces a caller header spelled the same way.
\<close>

lemma map_of_obj_set: "map_of (obj_set obj k v) = (map_of obj)(k \<mapsto> v)"
  by (induction obj k v rule: obj_set.induct) auto

lemma trigger_headers_exact_names:
  "map_of (trigger_headers ORIGIN jwtToken chatHistoryId clientHeaders) =
     (map_of (case clientHeaders of Some h \<Rightarrow> filterAllowedHeaders h | None \<Rightarrow> []))
       (js ''Authorization'' \<mapsto> js ''Bearer '' @ jwtToken,
        js ''Content-Type'' \<mapsto> js ''application/json'',
        js ''Origin'' \<mapsto> ORIGIN,
        js ''Referer'' \<mapsto> ORIGIN @ js ''/'' @ chatHistoryId)"
  by (simp add: trigger_headers_def Let_def map_of_obj_set)

text \<open>
  Claim C9 says that a server header wins over a caller header of the same name, compared
  without regard to case. The object literal spreads the filtered caller headers and then
  sets \<^verbatim>\<open>Authorization\<close>, \<^verbatim>\<open>Content-Type\<close>, \<^verbatim>\<open>Origin\<close> and \<^verbatim>\<open>Referer\<close>; property names are
  compared exactly. The names a \<^verbatim>\<open>Headers\<close> object yields are lower-case, and
  \<^verbatim>\<open>authorization\<close> and \<^verbatim>\<open>content-type\<close> are on the allow-list: the caller's
  \<^verbatim>\<open>authorization\<close> stays in the object beside the server's \<^verbatim>\<open>Authorization\<close>, and under the
  name \<^verbatim>\<open>Authorization\<close> the object passed to \<^verbatim>\<open>fetch\<close> holds both values.
\<close>

theorem caller_authorization_kept:
  "trigger_headers (js ''https://o'') (js ''JWT'') (js ''c1'')
     (Some [(js ''authorization'', js ''Bearer key''), (js ''cookie'', js ''a=b'')]) =
   [(js ''authorization'', js ''Bearer key''), (js ''Authorization'', js ''Bearer JWT''),
    (js ''Content-Type'', js ''application/json''), (js ''Origin'', js ''https://o''),
    (js ''Referer'', js ''https://o/c1'')]
  \<and> values_for (trigger_headers (js ''https://o'') (js ''JWT'') (js ''c1'')
     (Some [(js ''authorization'', js ''Bearer key''), (js ''cookie'', js ''a=b'')])) (js ''Authorization'')
     = [js ''Bearer key'', js ''Bearer JWT'']"
  by (simp add: trigger_headers_def filterAllowedHeaders_def isAllowedHeader_def values_for_def
      ALLOWED_HEADER_NAMES_def ALLOWED_HEADER_PREFIXES_def toLowerCase_def js_def Let_def startsWith_def)

subsection \<open>C10: updates that carry nothing\<close>

text \<open>
  Claim C10. Every update event sets \<^verbatim>\<open>receivedUpdate\<close>. An update whose nested buffer does
  not parse, whose type is neither \<^verbatim>\<open>chat\<close> nor \<^verbatim>\<open>thinking\<close>, or whose content is empty
  yields no frame, appends nothing and changes nothing else in the state, in both sinks;
  and a state event with \<^verbatim>\<open>inProgress = false\<close> right after it ends the session (closing an
  open thinking block first).
\<close>

theorem ignored_update_sets_flag:
  "receivedUpdate (fst (stream_message requestId model st (Update b')))
   \<and> receivedUpdate (fst (nonStream_message st full (Update b')))
   \<and> (ignored_payload b \<longrightarrow>
        stream_message requestId model st (Update b) = (st\<lparr>receivedUpdate := True\<rparr>, [], False)
      \<and> nonStream_message st full (Update b) = (st\<lparr>receivedUpdate := True\<rparr>, full, False)
      \<and> stream_loop requestId model st (Message (Update b) # Message (State False) # rest)
          = ((if inThinkingBlock st
              then [createSSEChunk requestId model (js ''</think>'') None] else []),
             st\<lparr>receivedUpdate := True, inThinkingBlock := False\<rparr>, Ended)
      \<and> nonStream_loop st full (Message (Update b) # Message (State False) # rest)
          = ((if inThinkingBlock st then full @ js ''</think>'' else full),
             st\<lparr>receivedUpdate := True, inThinkingBlock := False\<rparr>, Ended))"
proof (intro conjI impI)
  let ?r = requestId and ?m = model
  show R: "receivedUpdate (fst (stream_message ?r ?m st (Update b')))"
    by (simp add: stream_message_received)
  show "receivedUpdate (fst (nonStream_message st full (Update b')))"
    using R by (simp only: nonStream_message_sim[of st full _ ?r ?m] fst_conv)
next
  let ?r = requestId and ?m = model
  assume I: "ignored_payload b"
  show S: "stream_message ?r ?m st (Update b) = (st\<lparr>receivedUpdate := True\<rparr>, [], False)"
    using I by (cases b) (auto simp: Let_def)
  show N: "nonStream_message st full (Update b) = (st\<lparr>receivedUpdate := True\<rparr>, full, False)"
    using I by (cases b) (auto simp: Let_def)
  show "stream_loop ?r ?m st (Message (Update b) # Message (State False) # rest)
          = ((if inThinkingBlock st then [createSSEChunk ?r ?m (js ''</think>'') None] else []),
             st\<lparr>receivedUpdate := True, inThinkingBlock := False\<rparr>, Ended)"
    using S by simp
  show "nonStream_loop st full (Message (Update b) # Message (State False) # rest)
          = ((if inThinkingBlock st then full @ js ''</think>'' else full),
             st\<lparr>receivedUpdate := True, inThinkingBlock := False\<rparr>, Ended)"
    using N by simp
qed

theorem ignored_update_sets_flag_witness:
  "ignored_payload (Payload (js ''tool'') (js ''x'')) \<and> ignored_payload Unparsable
   \<and> ignored_payload (Payload (js ''chat'') [])
   \<and> stream_message (js ''r'') (js ''m'') init_session (Update (Payload (js ''tool'') (js ''x'')))
       = (init_session\<lparr>receivedUpdate := True\<rparr>, [], False)
   \<and> stream_loop (js ''r'') (js ''m'') init_session
        [Message (Update (Payload (js ''chat'') [])), Message (State False)]
       = ([], init_session\<lparr>receivedUpdate := True, inThinkingBlock := False\<rparr>, Ended)
   \<and> nonStream_loop init_session (js ''so far'') [Message (Update Unparsable), Message (State False)]
       = (js ''so far'', init_session\<lparr>receivedUpdate := True, inThinkingBlock := False\<rparr>, Ended)"
proof -
  have h1: "ignored_payload (Payload (js ''tool'') (js ''x''))" by (simp add: js_def)
  have h2: "ignored_payload Unparsable" by simp
  have h3: "ignored_payload (Payload (js ''chat'') [])" by simp
  have i: "\<not> inThinkingBlock init_session" by (simp add: init_session_def)
  have a: "stream_message (js ''r'') (js ''m'') init_session (Update (Payload (js ''tool'') (js ''x'')))
       = (init_session\<lparr>receivedUpdate := True\<rparr>, [], False)"
    using ignored_update_sets_flag[of "js ''r''" "js ''m''" init_session Unparsable "[]"
        "Payload (js ''tool'') (js ''x'')" "[]", THEN conjunct2, THEN conjunct2, THEN mp, OF h1]
    by (rule conjunct1)
  have b: "stream_loop (js ''r'') (js ''m'') init_session
        [Message (Update (Payload (js ''chat'') [])), Message (State False)]
       = ([], init_session\<lparr>receivedUpdate := True, inThinkingBlock := False\<rparr>, Ended)"
    using ignored_update_sets_flag[of "js ''r''" "js ''m''" init_session Unparsable "[]"
        "Payload (js ''chat'') []" "[]", THEN conjunct2, THEN conjunct2, THEN mp, OF h3] i
    by simp
  have c: "nonStream_loop init_session (js ''so far'') [Message (Update Unparsable), Message (State False)]
       = (js ''so far'', init_session\<lparr>receivedUpdate := True, inThinkingBlock := False\<rparr>, Ended)"
    using ignored_update_sets_flag[of "js ''r''" "js ''m''" init_session Unparsable "js ''so far''"
        Unparsable "[]", THEN conjunct2, THEN conjunct2, THEN mp, OF h2] i
    by simp
  show ?thesis using h1 h2 h3 a b c by simp
qed

end
